theory Spec2Isabelle
  imports Main
begin

section \<open>The URL store of goto\<close>

text \<open>
  The store of \<^verbatim>\<open>store.go\<close> is a struct with one field, a Go map from short keys to
  long URLs. Go strings are byte sequences, as \<^typ>\<open>string\<close> is; a map is a partial
  function. The methods mutate the struct through a pointer: here they take the store
  and return the new one. The map is taken as initialised (made by the factory, as the
  documentation requires before the store is used).
\<close>

record URLStore =
  urls :: "string \<rightharpoonup> string"

text \<open>\<^verbatim>\<open>Get\<close>: an index expression on a map yields the zero value of the element
  type, the empty string, for a key that is not there.\<close>

definition Get :: "URLStore \<Rightarrow> string \<Rightarrow> string" where
  "Get s key = (case urls s key of None \<Rightarrow> '''' | Some url \<Rightarrow> url)"

text \<open>\<^verbatim>\<open>Set\<close>: the comma-ok test, then either the early \<^verbatim>\<open>return false\<close> or the
  assignment and \<^verbatim>\<open>return true\<close>. The result is the store afterwards and the boolean.\<close>

definition Set :: "URLStore \<Rightarrow> string \<Rightarrow> string \<Rightarrow> URLStore \<times> bool" where
  "Set s key url =
     (case urls s key of
        Some _ \<Rightarrow> (s, False)
      | None \<Rightarrow> (s\<lparr>urls := (urls s)(key \<mapsto> url)\<rparr>, True))"

text \<open>\<^verbatim>\<open>Count\<close>: \<^verbatim>\<open>len\<close> of the map, a Go \<^verbatim>\<open>int\<close>. A Go map is finite and its
  length never leaves the range of \<^verbatim>\<open>int\<close>.\<close>

definition Count :: "URLStore \<Rightarrow> int" where
  "Count s = int (card (dom (urls s)))"

text \<open>
  \<^verbatim>\<open>Put\<close>: the \<^verbatim>\<open>for\<close> loop without a condition. Each round reads \<^verbatim>\<open>Count\<close>, asks
  \<^verbatim>\<open>genKey\<close> for a key and calls \<^verbatim>\<open>Set\<close>; it returns the key when \<^verbatim>\<open>Set\<close> says
  \<^verbatim>\<open>true\<close> and goes round again otherwise. The loop may run forever, so the function
  is partial: the value \<open>None\<close> stands for a call that never returns.

  \<^verbatim>\<open>genKey\<close> is not among the sources: it is a parameter, a function from the ordinal
  to the key.
\<close>

partial_function (option) Put ::
  "(int \<Rightarrow> string) \<Rightarrow> URLStore \<Rightarrow> string \<Rightarrow> (URLStore \<times> string) option" where
  "Put genKey s url =
     (let key = genKey (Count s) in
      case Set s key url of
        (s', ok) \<Rightarrow> if ok then Some (s', key) else Put genKey s' url)"

text \<open>The same loop cut off after \<open>n\<close> rounds, giving the keys it generated, one per
  round, in order.\<close>

fun Put_tries :: "(int \<Rightarrow> string) \<Rightarrow> URLStore \<Rightarrow> string \<Rightarrow> nat \<Rightarrow> string list" where
  "Put_tries genKey s url 0 = []"
| "Put_tries genKey s url (Suc n) =
     (let key = genKey (Count s) in
      case Set s key url of
        (s', ok) \<Rightarrow> if ok then [key] else key # Put_tries genKey s' url n)"

text \<open>
  The same loop again, recording what it does to the store. The kinds of effect are
  the two that the specification speaks of: an entry written into the map, and a record
  sent to the write queue. The only statement of \<^verbatim>\<open>Set\<close> and \<^verbatim>\<open>Put\<close> that changes
  anything is the map assignment in \<^verbatim>\<open>Set\<close>.
\<close>

datatype effect = MapInsert string string | Enqueue string string

definition Set_log :: "URLStore \<Rightarrow> string \<Rightarrow> string \<Rightarrow> URLStore \<times> bool \<times> effect list" where
  "Set_log s key url =
     (case urls s key of
        Some _ \<Rightarrow> (s, False, [])
      | None \<Rightarrow> (s\<lparr>urls := (urls s)(key \<mapsto> url)\<rparr>, True, [MapInsert key url]))"

partial_function (option) Put_log ::
  "(int \<Rightarrow> string) \<Rightarrow> URLStore \<Rightarrow> string \<Rightarrow> effect list
     \<Rightarrow> (URLStore \<times> string \<times> effect list) option" where
  "Put_log genKey s url log =
     (let key = genKey (Count s) in
      case Set_log s key url of
        (s', ok, es) \<Rightarrow>
          if ok then Some (s', key, log @ es) else Put_log genKey s' url (log @ es))"

text \<open>
  Modelled from the spec: the key generator \<^verbatim>\<open>genKey\<close> is missing from the sources. The
  specification asks only for a total, deterministic function from the ordinal to a
  short string. This instance, used wherever a concrete generator is needed, writes the
  ordinal \<open>n\<close> as \<open>n + 1\<close> letters: \<open>a\<close>, \<open>aa\<close>, \<open>aaa\<close>, ...
\<close>

definition genKey_sample :: "int \<Rightarrow> string" where
  "genKey_sample n = replicate (nat n + 1) (CHR ''a'')"

subsection \<open>Sequences of operations\<close>

text \<open>A client of the store calls its four methods in some order. An operation and
  what it returned:\<close>

datatype op = OpGet string | OpSet string string | OpCount | OpPut string

datatype res = RGet string | RSet bool | RCount int | RPut string

fun exec_op :: "(int \<Rightarrow> string) \<Rightarrow> URLStore \<Rightarrow> op \<Rightarrow> (URLStore \<times> res) option" where
  "exec_op genKey s (OpGet key) = Some (s, RGet (Get s key))"
| "exec_op genKey s (OpSet key url) = (case Set s key url of (s', ok) \<Rightarrow> Some (s', RSet ok))"
| "exec_op genKey s OpCount = Some (s, RCount (Count s))"
| "exec_op genKey s (OpPut url) =
     (case Put genKey s url of None \<Rightarrow> None | Some (s', key) \<Rightarrow> Some (s', RPut key))"

text \<open>Running a list of operations gives the last store and the results, or \<open>None\<close>
  when one of the calls never returns.\<close>

fun run :: "(int \<Rightarrow> string) \<Rightarrow> URLStore \<Rightarrow> op list \<Rightarrow> (URLStore \<times> res list) option" where
  "run genKey s [] = Some (s, [])"
| "run genKey s (x # xs) =
     (case exec_op genKey s x of
        None \<Rightarrow> None
      | Some (s', r) \<Rightarrow>
          (case run genKey s' xs of
             None \<Rightarrow> None
           | Some (s'', rs) \<Rightarrow> Some (s'', r # rs)))"

text \<open>The pair that a call accepted: that of a \<^verbatim>\<open>Set\<close> that returned \<^verbatim>\<open>true\<close>, that
  of a \<^verbatim>\<open>Put\<close> with the key it returned, none for the other calls; and the pairs
  accepted in a run, call by call.\<close>

fun accept :: "op \<Rightarrow> res \<Rightarrow> (string \<times> string) list" where
  "accept (OpSet key url) (RSet ok) = (if ok then [(key, url)] else [])"
| "accept (OpPut url) (RPut key) = [(key, url)]"
| "accept x r = []"

fun accepted :: "op list \<Rightarrow> res list \<Rightarrow> (string \<times> string) list" where
  "accepted (x # xs) (r # rs) = accept x r @ accepted xs rs"
| "accepted xs rs = []"

subsection \<open>The redirect handler\<close>

text \<open>
  \<^verbatim>\<open>Redirect\<close> of \<^verbatim>\<open>main.go\<close>: the key is the request path without its first byte (the
  slice expression panics on an empty path); the handler redirects to \<^verbatim>\<open>/add\<close> when
  \<^verbatim>\<open>Get\<close> gives the empty string and to the stored URL otherwise. The result is the
  target handed to \<^verbatim>\<open>http.Redirect\<close>.
\<close>

datatype panic = SliceBoundsOutOfRange

definition Redirect :: "URLStore \<Rightarrow> string \<Rightarrow> panic + string" where
  "Redirect store path =
     (if length path < 1 then Inl SliceBoundsOutOfRange
      else let key = drop 1 path; url = Get store key in
           if url = '''' then Inr ''/add'' else Inr url)"

section \<open>Properties\<close>

subsection \<open>Set and Get\<close>

lemma Set_present: "urls s key = Some old \<Longrightarrow> Set s key url = (s, False)"
  by (simp add: Set_def)

lemma Set_absent:
  "urls s key = None \<Longrightarrow> Set s key url = (s\<lparr>urls := (urls s)(key \<mapsto> url)\<rparr>, True)"
  by (simp add: Set_def)

lemma Set_urls_mono:
  assumes "Set s key url = (s', ok)" and "urls s k = Some v"
  shows "urls s' k = Some v"
  using assms by (auto simp: Set_def split: option.splits)

lemma Set_urls_origin:
  assumes "Set s key url = (s', ok)" and "urls s' k = Some v"
  shows "urls s k = Some v \<or> (ok \<and> k = key \<and> v = url)"
  using assms by (auto simp: Set_def split: option.splits if_splits)

subsection \<open>The loop of Put\<close>

text \<open>When the generated key is free, the first round returns.\<close>

lemma Put_free:
  assumes "urls s (genKey (Count s)) = None"
  shows "Put genKey s url =
           Some (s\<lparr>urls := (urls s)(genKey (Count s) \<mapsto> url)\<rparr>, genKey (Count s))"
  using assms by (subst Put.simps) (simp add: Set_absent Let_def)

text \<open>When it is taken, no round ever returns: a result would have to come from a round
  whose key was free, and a failed round leaves the store, and so the key, as they were.\<close>

lemma Put_Some_free:
  assumes "Put genKey s url = Some r"
  shows "urls s (genKey (Count s)) = None"
proof (rule Put.raw_induct
    [where P = "\<lambda>g s url r. urls s (g (Count s)) = None", OF _ assms])
  fix put :: "(int \<Rightarrow> string) \<Rightarrow> URLStore \<Rightarrow> string \<Rightarrow> (URLStore \<times> string) option"
  fix g s url r
  assume IH: "\<And>g s url r. put g s url = Some r \<Longrightarrow> urls s (g (Count s)) = None"
  assume round: "(let key = g (Count s) in
      case Set s key url of
        (s', ok) \<Rightarrow> if ok then Some (s', key) else put g s' url) = Some r"
  show "urls s (g (Count s)) = None"
  proof (cases "urls s (g (Count s))")
    case None
    then show ?thesis .
  next
    case (Some old)
    with round have "put g s url = Some r"
      by (simp add: Set_present Let_def)
    then show ?thesis by (rule IH)
  qed
qed

lemma Put_taken:
  assumes "urls s (genKey (Count s)) = Some old"
  shows "Put genKey s url = None"
proof (cases "Put genKey s url")
  case None
  then show ?thesis .
next
  case (Some r)
  then have "urls s (genKey (Count s)) = None" by (rule Put_Some_free)
  with assms show ?thesis by simp
qed

lemma Put_Some_iff:
  "Put genKey s url = Some (s', key) \<longleftrightarrow>
     urls s (genKey (Count s)) = None \<and> key = genKey (Count s)
       \<and> s' = s\<lparr>urls := (urls s)(key \<mapsto> url)\<rparr>"
proof (cases "urls s (genKey (Count s))")
  case None
  then show ?thesis by (auto simp: Put_free)
next
  case (Some old)
  then show ?thesis by (simp add: Put_taken)
qed

lemma Put_is_Set:
  assumes "Put genKey s url = Some (s', key)"
  shows "Set s key url = (s', True)"
  using assms by (simp add: Put_Some_iff Set_absent)

subsection \<open>Insert if absent\<close>

text \<open>
  C5. For every key and value, \<^verbatim>\<open>Set\<close> returns false and leaves the store as it was
  when the key is already in the map, and returns true and adds the pair (changing
  nothing else) when it is not.
\<close>

theorem Set_insert_if_absent:
  "(key \<in> dom (urls s) \<longrightarrow> Set s key url = (s, False)) \<and>
   (key \<notin> dom (urls s) \<longrightarrow> Set s key url = (s\<lparr>urls := (urls s)(key \<mapsto> url)\<rparr>, True))"
  by (auto simp: Set_def split: option.splits)

theorem Set_insert_if_absent_witness:
  "Set \<lparr>urls = [''a'' \<mapsto> ''x'']\<rparr> ''a'' ''y'' = (\<lparr>urls = [''a'' \<mapsto> ''x'']\<rparr>, False) \<and>
   Set \<lparr>urls = [''a'' \<mapsto> ''x'']\<rparr> ''b'' ''y'' = (\<lparr>urls = [''a'' \<mapsto> ''x'', ''b'' \<mapsto> ''y'']\<rparr>, True)"
  using Set_insert_if_absent [of "''a''" "\<lparr>urls = [''a'' \<mapsto> ''x'']\<rparr>" "''y''"]
    Set_insert_if_absent [of "''b''" "\<lparr>urls = [''a'' \<mapsto> ''x'']\<rparr>" "''y''"]
  by simp

subsection \<open>Reading back what was put\<close>

text \<open>
  C6. For every value, once \<^verbatim>\<open>Put\<close> has returned a key, \<^verbatim>\<open>Get\<close> of that key on the
  store as \<^verbatim>\<open>Put\<close> left it gives the value back. Nothing but the map in memory is
  involved.
\<close>

theorem Get_Put:
  assumes "Put genKey s url = Some (s', key)"
  shows "Get s' key = url"
  using assms by (simp add: Put_Some_iff Get_def)

theorem Get_Put_witness:
  "Put genKey_sample \<lparr>urls = Map.empty\<rparr> ''http://example.com/a''
     = Some (\<lparr>urls = [''a'' \<mapsto> ''http://example.com/a'']\<rparr>, ''a'') \<and>
   Get \<lparr>urls = [''a'' \<mapsto> ''http://example.com/a'']\<rparr> ''a'' = ''http://example.com/a''"
proof -
  have h: "Put genKey_sample \<lparr>urls = Map.empty\<rparr> ''http://example.com/a''
     = Some (\<lparr>urls = [''a'' \<mapsto> ''http://example.com/a'']\<rparr>, ''a'')"
    by (simp add: Put_Some_iff Count_def genKey_sample_def)
  from h Get_Put [OF h] show ?thesis by simp
qed

subsection \<open>Runs never remove or change an entry\<close>

lemma exec_op_mono:
  assumes "exec_op genKey s x = Some (s', r)" and "urls s k = Some v"
  shows "urls s' k = Some v"
proof (cases x)
  case (OpSet key url)
  with assms show ?thesis
    by (auto split: prod.splits dest: Set_urls_mono)
next
  case (OpPut url)
  with assms show ?thesis
    by (auto simp: Put_Some_iff split: option.splits)
qed (use assms in auto)

lemma exec_op_origin:
  assumes "exec_op genKey s x = Some (s', r)" and "urls s' k = Some v"
  shows "urls s k = Some v \<or> (k, v) \<in> set (accept x r)"
proof (cases x)
  case (OpSet key url)
  with assms show ?thesis
    by (auto split: prod.splits dest: Set_urls_origin)
next
  case (OpPut url)
  with assms show ?thesis
    by (auto simp: Put_Some_iff split: option.splits if_splits)
qed (use assms in auto)

lemma run_mono:
  assumes "run genKey s ops = Some (s', rs)" and "urls s k = Some v"
  shows "urls s' k = Some v"
  using assms
proof (induction ops arbitrary: s rs)
  case Nil
  then show ?case by simp
next
  case (Cons x xs)
  from Cons.prems(1) obtain t r rs' where
    step: "exec_op genKey s x = Some (t, r)" and rest: "run genKey t xs = Some (s', rs')"
    by (auto split: option.splits)
  from step Cons.prems(2) have "urls t k = Some v" by (rule exec_op_mono)
  with rest show ?case by (rule Cons.IH)
qed

lemma run_origin:
  assumes "run genKey s ops = Some (s', rs)" and "urls s' k = Some v"
  shows "urls s k = Some v \<or> (k, v) \<in> set (accepted ops rs)"
  using assms
proof (induction ops arbitrary: s rs)
  case Nil
  then show ?case by simp
next
  case (Cons x xs)
  from Cons.prems(1) obtain t r rs' where
    step: "exec_op genKey s x = Some (t, r)" and rest: "run genKey t xs = Some (s', rs')"
    and rs: "rs = r # rs'"
    by (auto split: option.splits)
  from Cons.IH [OF rest Cons.prems(2)]
  have "urls t k = Some v \<or> (k, v) \<in> set (accepted xs rs')" .
  then show ?case
  proof
    assume "urls t k = Some v"
    with step have "urls s k = Some v \<or> (k, v) \<in> set (accept x r)"
      by (rule exec_op_origin)
    then show ?thesis
      by (auto simp: rs)
  next
    assume "(k, v) \<in> set (accepted xs rs')"
    then show ?thesis
      by (simp add: rs)
  qed
qed

text \<open>
  C7. Take any sequence of calls of \<^verbatim>\<open>Get\<close>, \<^verbatim>\<open>Set\<close>, \<^verbatim>\<open>Count\<close> and \<^verbatim>\<open>Put\<close>. An entry
  that is in the map before the sequence is in the map after it, with the same value;
  and an entry that is in the map after it was there before or is a pair accepted on
  the way, by a \<^verbatim>\<open>Set\<close> that returned true or by a \<^verbatim>\<open>Put\<close> (whose key comes from
  such a \<^verbatim>\<open>Set\<close>, lemma \<open>Put_is_Set\<close>).
  A call of \<^verbatim>\<open>Put\<close> that never returns changes nothing before or while it runs: each of
  its rounds is a \<^verbatim>\<open>Set\<close> that returns false (lemma \<open>Set_present\<close>).
\<close>

theorem run_append_only:
  assumes "run genKey s ops = Some (s', rs)"
  shows "(\<forall>k v. urls s k = Some v \<longrightarrow> urls s' k = Some v) \<and>
         (\<forall>k v. urls s' k = Some v \<longrightarrow> urls s k = Some v \<or> (k, v) \<in> set (accepted ops rs))"
  using assms by (blast intro: run_mono dest: run_origin)

theorem run_append_only_witness:
  "run genKey_sample \<lparr>urls = [''b'' \<mapsto> ''x'']\<rparr> [OpSet ''b'' ''y'', OpGet ''b'', OpCount, OpPut ''z'']
     = Some (\<lparr>urls = [''b'' \<mapsto> ''x'', ''aa'' \<mapsto> ''z'']\<rparr>, [RSet False, RGet ''x'', RCount 1, RPut ''aa'']) \<and>
   urls \<lparr>urls = [''b'' \<mapsto> ''x'', ''aa'' \<mapsto> ''z'']\<rparr> ''b'' = Some ''x'' \<and>
   (''aa'', ''z'') \<in> set (accepted [OpSet ''b'' ''y'', OpGet ''b'', OpCount, OpPut ''z'']
                            [RSet False, RGet ''x'', RCount 1, RPut ''aa''])"
proof -
  have h: "run genKey_sample \<lparr>urls = [''b'' \<mapsto> ''x'']\<rparr> [OpSet ''b'' ''y'', OpGet ''b'', OpCount, OpPut ''z'']
     = Some (\<lparr>urls = [''b'' \<mapsto> ''x'', ''aa'' \<mapsto> ''z'']\<rparr>, [RSet False, RGet ''x'', RCount 1, RPut ''aa''])"
    by (simp add: Set_def Get_def Count_def genKey_sample_def Put_free)
  from h run_append_only [OF h] show ?thesis by simp
qed

subsection \<open>Distinct keys\<close>

text \<open>
  C8. Two calls of \<^verbatim>\<open>Put\<close> on the same store, one after the other, both returning, return
  different keys. This holds whatever the two values are, and whatever calls of the
  store's methods come between the two.
\<close>

theorem Put_keys_distinct:
  assumes "Put genKey s v1 = Some (s1, k1)"
    and "run genKey s1 ops = Some (t, rs)"
    and "Put genKey t v2 = Some (s2, k2)"
  shows "k1 \<noteq> k2"
proof
  assume same: "k1 = k2"
  from assms(1) have "urls s1 k1 = Some v1" by (simp add: Put_Some_iff)
  with assms(2) have "urls t k1 = Some v1" by (rule run_mono)
  moreover from assms(3) have "urls t k2 = None" by (simp add: Put_Some_iff)
  ultimately show False using same by simp
qed

theorem Put_keys_distinct_witness:
  "Put genKey_sample \<lparr>urls = Map.empty\<rparr> ''http://example.com/a''
     = Some (\<lparr>urls = [''a'' \<mapsto> ''http://example.com/a'']\<rparr>, ''a'') \<and>
   run genKey_sample \<lparr>urls = [''a'' \<mapsto> ''http://example.com/a'']\<rparr> []
     = Some (\<lparr>urls = [''a'' \<mapsto> ''http://example.com/a'']\<rparr>, []) \<and>
   Put genKey_sample \<lparr>urls = [''a'' \<mapsto> ''http://example.com/a'']\<rparr> ''http://example.com/b''
     = Some (\<lparr>urls = [''a'' \<mapsto> ''http://example.com/a'', ''aa'' \<mapsto> ''http://example.com/b'']\<rparr>, ''aa'') \<and>
   ''a'' \<noteq> ''aa''"
proof -
  have h1: "Put genKey_sample \<lparr>urls = Map.empty\<rparr> ''http://example.com/a''
     = Some (\<lparr>urls = [''a'' \<mapsto> ''http://example.com/a'']\<rparr>, ''a'')"
    by (simp add: Put_Some_iff Count_def genKey_sample_def)
  have h2: "run genKey_sample \<lparr>urls = [''a'' \<mapsto> ''http://example.com/a'']\<rparr> []
     = Some (\<lparr>urls = [''a'' \<mapsto> ''http://example.com/a'']\<rparr>, [])"
    by simp
  have h3: "Put genKey_sample \<lparr>urls = [''a'' \<mapsto> ''http://example.com/a'']\<rparr> ''http://example.com/b''
     = Some (\<lparr>urls = [''a'' \<mapsto> ''http://example.com/a'', ''aa'' \<mapsto> ''http://example.com/b'']\<rparr>, ''aa'')"
    by (simp add: Put_Some_iff Count_def genKey_sample_def)
  from h1 h2 h3 Put_keys_distinct [OF h1 h2 h3] show ?thesis by simp
qed

subsection \<open>Absent keys\<close>

lemma Get_absent: "urls s key = None \<Longrightarrow> Get s key = ''''"
  by (simp add: Get_def)

text \<open>
  C9. \<^verbatim>\<open>Get\<close> of a key that was never put gives the empty string: if the key is not in
  the map to begin with and no \<^verbatim>\<open>Put\<close> and no \<^verbatim>\<open>Set\<close> of a sequence of calls accepted
  a pair under it, \<^verbatim>\<open>Get\<close> after the sequence returns the empty string. \<^verbatim>\<open>Get\<close> has no
  error result: it is a total function into the strings.
\<close>

theorem Get_never_put:
  assumes "urls s key = None"
    and "run genKey s ops = Some (s', rs)"
    and "key \<notin> fst ` set (accepted ops rs)"
  shows "Get s' key = ''''"
proof (cases "urls s' key")
  case None
  then show ?thesis by (rule Get_absent)
next
  case (Some v)
  with assms(2) have "urls s key = Some v \<or> (key, v) \<in> set (accepted ops rs)"
    by (rule run_origin)
  with assms(1) have "(key, v) \<in> set (accepted ops rs)" by simp
  then have "key \<in> fst ` set (accepted ops rs)" by force
  with assms(3) show ?thesis by simp
qed

theorem Get_never_put_witness:
  "urls \<lparr>urls = Map.empty\<rparr> ''nonexistent'' = None \<and>
   run genKey_sample \<lparr>urls = Map.empty\<rparr> [OpPut ''http://example.com/a'', OpSet ''k'' ''v'']
     = Some (\<lparr>urls = [''a'' \<mapsto> ''http://example.com/a'', ''k'' \<mapsto> ''v'']\<rparr>, [RPut ''a'', RSet True]) \<and>
   ''nonexistent'' \<notin> fst ` set (accepted [OpPut ''http://example.com/a'', OpSet ''k'' ''v'']
                                     [RPut ''a'', RSet True]) \<and>
   Get \<lparr>urls = [''a'' \<mapsto> ''http://example.com/a'', ''k'' \<mapsto> ''v'']\<rparr> ''nonexistent'' = ''''"
proof -
  have h1: "urls \<lparr>urls = Map.empty\<rparr> ''nonexistent'' = None" by simp
  have h2: "run genKey_sample \<lparr>urls = Map.empty\<rparr> [OpPut ''http://example.com/a'', OpSet ''k'' ''v'']
     = Some (\<lparr>urls = [''a'' \<mapsto> ''http://example.com/a'', ''k'' \<mapsto> ''v'']\<rparr>, [RPut ''a'', RSet True])"
    by (simp add: Set_def Count_def genKey_sample_def Put_free)
  have h3: "''nonexistent'' \<notin> fst ` set (accepted [OpPut ''http://example.com/a'', OpSet ''k'' ''v'']
                                     [RPut ''a'', RSet True])"
    by simp
  from h1 h2 h3 Get_never_put [OF h1 h2 h3] show ?thesis by simp
qed

subsection \<open>The empty string as a value\<close>

text \<open>
  C10. When \<^verbatim>\<open>Put\<close> of the empty string returns a key, \<^verbatim>\<open>Get\<close> of that key gives the
  empty string, which is what \<^verbatim>\<open>Get\<close> gives for every key that is not in the map; and
  the redirect handler, asked for the path of that key, redirects to \<^verbatim>\<open>/add\<close>, as it
  does for a key that is not in the map.
\<close>

theorem Put_empty_value_looks_absent:
  assumes "Put genKey s '''' = Some (s', key)"
  shows "Get s' key = '''' \<and>
         Redirect s' (CHR ''/'' # key) = Inr ''/add'' \<and>
         (\<forall>k. k \<notin> dom (urls s') \<longrightarrow>
            Get s' k = Get s' key \<and>
            Redirect s' (CHR ''/'' # k) = Redirect s' (CHR ''/'' # key))"
proof -
  from assms have stored: "Get s' key = ''''" by (simp add: Put_Some_iff Get_def)
  then have here: "Redirect s' (CHR ''/'' # key) = Inr ''/add''"
    by (simp add: Redirect_def)
  have "Get s' k = '''' \<and> Redirect s' (CHR ''/'' # k) = Inr ''/add''"
    if "k \<notin> dom (urls s')" for k
    using that by (simp add: Redirect_def Get_def domIff)
  with stored here show ?thesis by simp
qed

theorem Put_empty_value_looks_absent_witness:
  "Put genKey_sample \<lparr>urls = Map.empty\<rparr> '''' = Some (\<lparr>urls = [''a'' \<mapsto> '''']\<rparr>, ''a'') \<and>
   ''a'' \<in> dom (urls \<lparr>urls = [''a'' \<mapsto> '''']\<rparr>) \<and>
   ''b'' \<notin> dom (urls \<lparr>urls = [''a'' \<mapsto> '''']\<rparr>) \<and>
   Get \<lparr>urls = [''a'' \<mapsto> '''']\<rparr> ''a'' = '''' \<and>
   Get \<lparr>urls = [''a'' \<mapsto> '''']\<rparr> ''b'' = '''' \<and>
   Redirect \<lparr>urls = [''a'' \<mapsto> '''']\<rparr> ''/a'' = Inr ''/add'' \<and>
   Redirect \<lparr>urls = [''a'' \<mapsto> '''']\<rparr> ''/b'' = Inr ''/add''"
proof -
  have h: "Put genKey_sample \<lparr>urls = Map.empty\<rparr> '''' = Some (\<lparr>urls = [''a'' \<mapsto> '''']\<rparr>, ''a'')"
    by (simp add: Put_Some_iff Count_def genKey_sample_def)
  have absent: "''b'' \<notin> dom (urls \<lparr>urls = [''a'' \<mapsto> '''']\<rparr>)" by simp
  from Put_empty_value_looks_absent [OF h] absent
  have "Get \<lparr>urls = [''a'' \<mapsto> '''']\<rparr> ''a'' = '''' \<and>
        Redirect \<lparr>urls = [''a'' \<mapsto> '''']\<rparr> ''/a'' = Inr ''/add'' \<and>
        Get \<lparr>urls = [''a'' \<mapsto> '''']\<rparr> ''b'' = Get \<lparr>urls = [''a'' \<mapsto> '''']\<rparr> ''a'' \<and>
        Redirect \<lparr>urls = [''a'' \<mapsto> '''']\<rparr> ''/b'' = Redirect \<lparr>urls = [''a'' \<mapsto> '''']\<rparr> ''/a''"
    by blast
  with h absent show ?thesis by simp
qed

subsection \<open>A round that fails changes nothing\<close>

text \<open>When the generated key is taken, every round generates that same key.\<close>

lemma Put_tries_taken:
  assumes "urls s (genKey (Count s)) = Some old"
  shows "Put_tries genKey s url n = replicate n (genKey (Count s))"
  using assms by (induction n) (simp_all add: Set_present Let_def)

text \<open>
  C1. The claim is that \<^verbatim>\<open>Put\<close> returns a key whenever there are more keys than entries.
  It does not: on the store with the one entry \<open>aa\<close>, and the generator that gives
  \<open>a\<close>, \<open>aa\<close>, \<open>aaa\<close>, ..., the count is 1, the key generated is \<open>aa\<close>, which is
  taken, while \<open>a\<close> (and every longer key) is free; and \<^verbatim>\<open>Put\<close> never returns.
\<close>

theorem Put_never_returns_on_taken_key:
  "Count \<lparr>urls = [''aa'' \<mapsto> ''x'']\<rparr> = 1 \<and>
   genKey_sample 1 = ''aa'' \<and>
   genKey_sample 0 = ''a'' \<and>
   urls \<lparr>urls = [''aa'' \<mapsto> ''x'']\<rparr> ''a'' = None \<and>
   Put genKey_sample \<lparr>urls = [''aa'' \<mapsto> ''x'']\<rparr> ''y'' = None"
proof -
  have taken: "urls \<lparr>urls = [''aa'' \<mapsto> ''x'']\<rparr>
      (genKey_sample (Count \<lparr>urls = [''aa'' \<mapsto> ''x'']\<rparr>)) = Some ''x''"
    by (simp add: Count_def genKey_sample_def)
  have "Put genKey_sample \<lparr>urls = [''aa'' \<mapsto> ''x'']\<rparr> ''y'' = None"
    using taken by (rule Put_taken)
  then show ?thesis
    by (simp add: Count_def genKey_sample_def)
qed

text \<open>
  C2. The claim is that a round after a failed insert gives the generator something
  other than the ordinal of the round before. It does not: on the same store, every
  round of the loop, however many are run, generates the key \<open>aa\<close> again.
\<close>

theorem Put_retries_same_key:
  "Put_tries genKey_sample \<lparr>urls = [''aa'' \<mapsto> ''x'']\<rparr> ''y'' n = replicate n ''aa''"
proof -
  have taken: "urls \<lparr>urls = [''aa'' \<mapsto> ''x'']\<rparr>
      (genKey_sample (Count \<lparr>urls = [''aa'' \<mapsto> ''x'']\<rparr>)) = Some ''x''"
    by (simp add: Count_def genKey_sample_def)
  have "genKey_sample (Count \<lparr>urls = [''aa'' \<mapsto> ''x'']\<rparr>) = ''aa''"
    by (simp add: Count_def genKey_sample_def)
  with Put_tries_taken [of "\<lparr>urls = [''aa'' \<mapsto> ''x'']\<rparr>" genKey_sample "''x''" "''y''" n] taken
  show ?thesis by simp
qed

subsection \<open>What Put does to the store\<close>

lemma Put_log_free:
  assumes "urls s (genKey (Count s)) = None"
  shows "Put_log genKey s url log =
           Some (s\<lparr>urls := (urls s)(genKey (Count s) \<mapsto> url)\<rparr>, genKey (Count s),
                 log @ [MapInsert (genKey (Count s)) url])"
  using assms by (subst Put_log.simps) (simp add: Set_log_def Let_def)

lemma Put_log_Some_free:
  assumes "Put_log genKey s url log = Some r"
  shows "urls s (genKey (Count s)) = None"
proof (rule Put_log.raw_induct
    [where P = "\<lambda>g s url log r. urls s (g (Count s)) = None", OF _ assms])
  fix put_log :: "(int \<Rightarrow> string) \<Rightarrow> URLStore \<Rightarrow> string \<Rightarrow> effect list
     \<Rightarrow> (URLStore \<times> string \<times> effect list) option"
  fix g s url log r
  assume IH: "\<And>g s url log r. put_log g s url log = Some r \<Longrightarrow> urls s (g (Count s)) = None"
  assume round: "(let key = g (Count s) in
      case Set_log s key url of
        (s', ok, es) \<Rightarrow>
          if ok then Some (s', key, log @ es) else put_log g s' url (log @ es)) = Some r"
  show "urls s (g (Count s)) = None"
  proof (cases "urls s (g (Count s))")
    case None
    then show ?thesis .
  next
    case (Some old)
    with round have "put_log g s url log = Some r"
      by (simp add: Set_log_def Let_def)
    then show ?thesis by (rule IH)
  qed
qed

text \<open>The recording loop is the loop of \<^verbatim>\<open>Put\<close>: it returns when \<^verbatim>\<open>Put\<close> does, with the
  same store and key.\<close>

lemma Put_log_Put:
  "Put_log genKey s url log =
     (case Put genKey s url of
        None \<Rightarrow> None
      | Some (s', key) \<Rightarrow> Some (s', key, log @ [MapInsert key url]))"
proof (cases "urls s (genKey (Count s))")
  case None
  then show ?thesis by (simp add: Put_log_free Put_free)
next
  case (Some old)
  then have "Put genKey s url = None" by (rule Put_taken)
  moreover have "Put_log genKey s url log = None"
  proof (cases "Put_log genKey s url log")
    case None
    then show ?thesis .
  next
    case (Some r)
    then have "urls s (genKey (Count s)) = None" by (rule Put_log_Some_free)
    with \<open>urls s (genKey (Count s)) = Some old\<close> show ?thesis by simp
  qed
  ultimately show ?thesis by simp
qed

text \<open>
  C3, as the code has it. Every \<^verbatim>\<open>Put\<close> that returns has added the pair of the key it
  returns and the value to the map, by a \<^verbatim>\<open>Set\<close> that returned true, and that is all
  it has done to the store: the store afterwards is the store before with this one
  entry more, and the one effect recorded is the insert. No record is sent to a write
  queue; the store has none.
\<close>

theorem Put_only_inserts:
  assumes "Put genKey s url = Some (s', key)"
  shows "Set s key url = (s', True) \<and>
         s' = s\<lparr>urls := (urls s)(key \<mapsto> url)\<rparr> \<and>
         Put_log genKey s url [] = Some (s', key, [MapInsert key url])"
proof -
  from assms have free: "urls s (genKey (Count s)) = None"
    and key: "key = genKey (Count s)"
    and s': "s' = s\<lparr>urls := (urls s)(key \<mapsto> url)\<rparr>"
    by (simp_all add: Put_Some_iff)
  from free have "Set s key url = (s', True)"
    by (simp add: key s' Set_absent)
  moreover from free have "Put_log genKey s url [] = Some (s', key, [MapInsert key url])"
    by (simp add: key s' Put_log_free)
  ultimately show ?thesis using s' by simp
qed

theorem Put_only_inserts_witness:
  "Put genKey_sample \<lparr>urls = Map.empty\<rparr> ''http://example.com/a''
     = Some (\<lparr>urls = [''a'' \<mapsto> ''http://example.com/a'']\<rparr>, ''a'') \<and>
   Set \<lparr>urls = Map.empty\<rparr> ''a'' ''http://example.com/a''
     = (\<lparr>urls = [''a'' \<mapsto> ''http://example.com/a'']\<rparr>, True) \<and>
   Put_log genKey_sample \<lparr>urls = Map.empty\<rparr> ''http://example.com/a'' []
     = Some (\<lparr>urls = [''a'' \<mapsto> ''http://example.com/a'']\<rparr>, ''a'',
             [MapInsert ''a'' ''http://example.com/a''])"
proof -
  have h: "Put genKey_sample \<lparr>urls = Map.empty\<rparr> ''http://example.com/a''
     = Some (\<lparr>urls = [''a'' \<mapsto> ''http://example.com/a'']\<rparr>, ''a'')"
    by (simp add: Put_Some_iff Count_def genKey_sample_def)
  from h Put_only_inserts [OF h] show ?thesis by blast
qed

text \<open>
  C3, as the claim has it, fails: \<^verbatim>\<open>Put\<close> of a URL on the empty store returns the key
  \<open>a\<close> having done one thing, the insert; sending the record to a write queue is not
  among its effects.
\<close>

theorem Put_enqueues_nothing:
  "Put_log genKey_sample \<lparr>urls = Map.empty\<rparr> ''http://example.com/a'' []
     = Some (\<lparr>urls = [''a'' \<mapsto> ''http://example.com/a'']\<rparr>, ''a'',
             [MapInsert ''a'' ''http://example.com/a'']) \<and>
   Enqueue ''a'' ''http://example.com/a'' \<notin> set [MapInsert ''a'' ''http://example.com/a'']"
  by (simp add: Put_log_free Count_def genKey_sample_def)

end
